theory Spec2Isabelle
  imports Main "HOL-Library.Sublist"
begin

text \<open>
  The relay between the GVGAI simulation and a language model, as the Node.js code of
  \<open>gvgai-web\<close> has it: the action parser (\<open>response-parser\<close>), the prompt composer
  (\<open>state-converter\<close>) and the socket client (\<open>llm-client\<close>) with its framing, its
  phase detection, its cached action and its admission test. Pure functions of the source
  are functions here; the client is a record of its fields, and each handler returns the
  new record together with the list of its effects in order. What the event loop
  interleaves (messages, \<open>setImmediate\<close> callbacks, settled backend calls, socket
  events) is a list of events, run one after the other.
\<close>

section \<open>Strings as the JavaScript code uses them\<close>

text \<open>
  A JavaScript string is modelled as a \<^typ>\<open>string\<close>, one \<^typ>\<open>char\<close> per character of
  ASCII text; this is the alphabet of the wire protocol, of the action vocabulary and of the
  placeholders. Upper-casing, white space and word characters are defined for ASCII, where
  they are what JavaScript computes. Outside ASCII they are not (JavaScript upper-cases
  U+0131 to \<open>I\<close>, trims U+00A0, and decodes a chunk of bytes before it splits it), so
  every statement below that depends on them is made for ASCII text, see \<open>ascii\<close>.
\<close>

text \<open>\<^verbatim>\<open>text.includes(action)\<close>: \<open>action\<close> occurs in \<open>text\<close> as a contiguous run.\<close>

fun str_includes :: "string \<Rightarrow> string \<Rightarrow> bool" where
  "str_includes [] a = (a = [])"
| "str_includes (c # cs) a = (prefix a (c # cs) \<or> str_includes cs a)"

definition upper_char :: "char \<Rightarrow> char" where
  "upper_char c =
     (let n = (of_char c :: nat) in if 97 \<le> n \<and> n \<le> 122 then char_of (n - 32) else c)"

definition toUpperCase :: "string \<Rightarrow> string" where
  "toUpperCase s = map upper_char s"

text \<open>The classes \<^verbatim>\<open>\s\<close> and \<^verbatim>\<open>\w\<close> of a JavaScript regular expression.\<close>

definition js_space :: "char \<Rightarrow> bool" where
  "js_space c = ((of_char c :: nat) \<in> {9, 10, 11, 12, 13, 32})"

definition js_word :: "char \<Rightarrow> bool" where
  "js_word c =
     (let n = (of_char c :: nat) in
        (65 \<le> n \<and> n \<le> 90) \<or> (97 \<le> n \<and> n \<le> 122) \<or> (48 \<le> n \<and> n \<le> 57) \<or> n = 95)"

section \<open>Action vocabulary and parser (response-parser)\<close>

definition VALID_ACTIONS :: "string list" where
  "VALID_ACTIONS =
     [''ACTION_NIL'', ''ACTION_UP'', ''ACTION_DOWN'', ''ACTION_LEFT'',
      ''ACTION_RIGHT'', ''ACTION_USE'', ''ACTION_ESCAPE'']"

text \<open>
  The pattern \<^verbatim>\<open>/ACTION:\s*(ACTION_\w+)/\<close> tried at the head of \<open>s\<close>; the result is
  capture group 1. Both stars are greedy and neither can give a character back: the
  character after the white space must be \<open>A\<close>, and nothing follows the word characters.
\<close>

definition match_action_at :: "string \<Rightarrow> string option" where
  "match_action_at s =
     (if prefix ''ACTION:'' s then
        let r = dropWhile js_space (drop 7 s) in
        if prefix ''ACTION_'' r then
          let w = takeWhile js_word (drop 7 r) in
          if w = [] then None else Some (''ACTION_'' @ w)
        else None
      else None)"

text \<open>\<^verbatim>\<open>text.match(/ACTION:\s*(ACTION_\w+)/)\<close>: the leftmost position where the pattern matches.\<close>

fun match_action :: "string \<Rightarrow> string option" where
  "match_action [] = None"
| "match_action (c # cs) =
     (case match_action_at (c # cs) of Some m \<Rightarrow> Some m | None \<Rightarrow> match_action cs)"

text \<open>
  \<^verbatim>\<open>parseAction(llmResponse, availableActions = VALID_ACTIONS)\<close>. The response is a string
  at every call site, so \<^verbatim>\<open>!llmResponse\<close> is the test for the empty string.
\<close>

definition parseAction :: "string \<Rightarrow> string list \<Rightarrow> string" where
  "parseAction llmResponse availableActions =
     (if llmResponse = [] then ''ACTION_NIL''
      else
        let text = toUpperCase llmResponse in
        case find (\<lambda>action. str_includes text action) availableActions of
          Some action \<Rightarrow> action
        | None \<Rightarrow>
            (case match_action text of
               Some m1 \<Rightarrow> if m1 \<in> set availableActions then m1 else ''ACTION_NIL''
             | None \<Rightarrow> ''ACTION_NIL''))"

text \<open>
  The simplified parser of the refinement claim: \<open>parseAction\<close> with its second tier
  (the structured pattern) removed.
\<close>

definition parseAction_tier1 :: "string \<Rightarrow> string list \<Rightarrow> string" where
  "parseAction_tier1 llmResponse availableActions =
     (if llmResponse = [] then ''ACTION_NIL''
      else
        let text = toUpperCase llmResponse in
        case find (\<lambda>action. str_includes text action) availableActions of
          Some action \<Rightarrow> action
        | None \<Rightarrow> ''ACTION_NIL'')"

text \<open>
  Text within ASCII. On such text the definitions above are what JavaScript computes
  (\<open>toUpperCase\<close>, \<open>trim\<close>, \<open>\s\<close>, \<open>\w\<close>), and a chunk of bytes from the socket
  is its own decoding (\<open>data.toString()\<close>), wherever the chunk is cut.
\<close>

definition ascii :: "string \<Rightarrow> bool" where
  "ascii s = list_all (\<lambda>c. (of_char c :: nat) < 128) s"






section \<open>Input composer (state-converter)\<close>

text \<open>
  The state snapshot the simulation sends (\<open>SerializableStateObservation\<close>), with the
  fields the code reads. A field the JSON object lacks is \<open>None\<close>. Numbers are the
  integers; a fractional score or position is outside the model.
\<close>

record sso =
  gameScore :: "int option"
  avatarHealthPoints :: "int option"
  avatarMaxHealthPoints :: "int option"
  gameTick :: "int option"
  avatarPosition :: "(int \<times> int) option"
  availableActions :: "string list option"
  gameWinner :: "string option"

text \<open>The resolved prompt configuration; the sampling settings play no role here.\<close>

record prompt_config =
  systemContent :: "string option"
  gameContent :: "string option"
  levelContent :: "string option"
  gameName :: "string option"

text \<open>\<^verbatim>\<open>String(n)\<close> for an integer \<open>n\<close>.\<close>

fun show_nat :: "nat \<Rightarrow> string" where
  "show_nat n =
     (if n < 10 then [''0123456789'' ! n]
      else show_nat (n div 10) @ [''0123456789'' ! (n mod 10)])"

definition show_int :: "int \<Rightarrow> string" where
  "show_int i = (if i < 0 then CHR ''-'' # show_nat (nat (- i)) else show_nat (nat i))"

text \<open>\<^verbatim>\<open>x || d\<close> on a number that may be missing: \<open>undefined\<close> and \<open>0\<close> are falsy.\<close>

definition num_or :: "int option \<Rightarrow> int \<Rightarrow> int" where
  "num_or x d = (case x of None \<Rightarrow> d | Some v \<Rightarrow> if v = 0 then d else v)"

text \<open>\<^verbatim>\<open>s || d\<close> on a string that may be missing: \<open>undefined\<close>, \<open>null\<close> and \<open>''\<close> are falsy.\<close>

definition str_or :: "string option \<Rightarrow> string \<Rightarrow> string" where
  "str_or x d = (case x of None \<Rightarrow> d | Some s \<Rightarrow> if s = [] then d else s)"

text \<open>\<^verbatim>\<open>xs.join(sep)\<close> on an array of strings.\<close>

fun join :: "string \<Rightarrow> string list \<Rightarrow> string" where
  "join sep [] = []"
| "join sep [x] = x"
| "join sep (x # y # ys) = x @ sep @ join sep (y # ys)"

definition actions_or_nil :: "sso \<Rightarrow> string list" where
  "actions_or_nil s = (case availableActions s of None \<Rightarrow> [''ACTION_NIL''] | Some as \<Rightarrow> as)"

definition buildDescriptivePrompt :: "sso \<Rightarrow> string" where
  "buildDescriptivePrompt s =
     ''You are playing a 2D game. Make decisions to survive and win.'' @ [CHR 0x0A]
     @ ''Score: '' @ show_int (num_or (gameScore s) 0)
     @ '' | Health: '' @ show_int (num_or (avatarHealthPoints s) 100)
     @ '' | Tick: '' @ show_int (num_or (gameTick s) 0) @ [CHR 0x0A, CHR 0x0A]
     @ ''Available actions: '' @ join '', '' (actions_or_nil s) @ [CHR 0x0A, CHR 0x0A]
     @ ''Choose ONE action. Respond with ONLY the action name (e.g., ACTION_UP).''"

text \<open>
  The values a property read on the \<open>vars\<close> object can give: the strings and numbers the
  object literal holds, and what an object literal inherits from \<open>Object.prototype\<close>
  (built-in functions, and the prototype object itself under \<open>__proto__\<close>).
\<close>

datatype js_value = JString string | JNumber int | JFunction string | JObjectPrototype

text \<open>\<^verbatim>\<open>String(v)\<close>, with V8's text for a built-in function.\<close>

definition js_String :: "js_value \<Rightarrow> string" where
  "js_String v =
     (case v of
        JString s \<Rightarrow> s
      | JNumber n \<Rightarrow> show_int n
      | JFunction name \<Rightarrow> ''function '' @ name @ ''() { [native code] }''
      | JObjectPrototype \<Rightarrow> ''[object Object]'')"

text \<open>The own properties of \<open>vars\<close>, as the object literal of \<open>resolveTemplate\<close> lists them.\<close>

definition vars_own :: "sso \<Rightarrow> string option \<Rightarrow> string \<Rightarrow> js_value option" where
  "vars_own s extra_gameName key =
     (if key = ''gameName'' then Some (JString (str_or extra_gameName ''unknown''))
      else if key = ''gameScore'' then Some (JNumber (num_or (gameScore s) 0))
      else if key = ''avatarHealthPoints'' then Some (JNumber (num_or (avatarHealthPoints s) 0))
      else if key = ''gameTick'' then Some (JNumber (num_or (gameTick s) 0))
      else if key = ''availableActions'' then Some (JString (join '', '' (actions_or_nil s)))
      else if key = ''avatarPosition'' then
        Some (JString (case avatarPosition s of
                         Some (x, y) \<Rightarrow> ''('' @ show_int x @ '', '' @ show_int y @ '')''
                       | None \<Rightarrow> ''(0, 0)''))
      else None)"

text \<open>The properties every object literal inherits from \<open>Object.prototype\<close>.\<close>

definition object_prototype :: "string \<Rightarrow> js_value option" where
  "object_prototype key =
     (if key = ''constructor'' then Some (JFunction ''Object'')
      else if key = ''__proto__'' then Some JObjectPrototype
      else if key \<in> set [''toString'', ''toLocaleString'', ''valueOf'', ''hasOwnProperty'',
                ''isPrototypeOf'', ''propertyIsEnumerable'', ''__defineGetter__'',
                ''__defineSetter__'', ''__lookupGetter__'', ''__lookupSetter__'']
        then Some (JFunction key)
      else None)"

text \<open>\<^verbatim>\<open>vars[key]\<close>: own properties first, then the prototype; \<open>None\<close> is \<open>undefined\<close>.\<close>

definition vars_get :: "sso \<Rightarrow> string option \<Rightarrow> string \<Rightarrow> js_value option" where
  "vars_get s extra_gameName key =
     (case vars_own s extra_gameName key of
        Some v \<Rightarrow> Some v
      | None \<Rightarrow> object_prototype key)"

text \<open>
  The pattern \<^verbatim>\<open>/\{\{(\w+)\}\}/\<close> tried at the head of \<open>s\<close>: the key and the text after
  the match. The word characters are taken greedily and cannot be given back, since a
  closing brace is no word character.
\<close>

definition match_placeholder :: "string \<Rightarrow> (string \<times> string) option" where
  "match_placeholder s =
     (if prefix ''{{'' s then
        let key = takeWhile js_word (drop 2 s);
            rest = dropWhile js_word (drop 2 s)
        in if key \<noteq> [] \<and> prefix ''}}'' rest then Some (key, drop 2 rest) else None
      else None)"

lemma match_placeholder_shorter:
  "match_placeholder s = Some (key, rest) \<Longrightarrow> length rest < length s"
proof -
  assume a: "match_placeholder s = Some (key, rest)"
  then have "rest = drop 2 (dropWhile js_word (drop 2 s))" and "prefix ''{{'' s"
    by (auto simp: match_placeholder_def Let_def split: if_splits)
  moreover have "length (dropWhile js_word (drop 2 s)) \<le> length (drop 2 s)"
    by (rule length_dropWhile_le)
  ultimately show ?thesis
    by (auto simp: prefix_def)
qed

text \<open>
  \<^verbatim>\<open>content.replace(/\{\{(\w+)\}\}/g, f)\<close>: every match, left to right and without
  overlap, is replaced by what the callback returns for (match, key); the replacement is
  not scanned again.
\<close>

function replace_placeholders :: "(string \<Rightarrow> string \<Rightarrow> string) \<Rightarrow> string \<Rightarrow> string" where
  "replace_placeholders f [] = []"
| "replace_placeholders f (c # cs) =
     (case match_placeholder (c # cs) of
        Some (key, rest) \<Rightarrow> f (''{{'' @ key @ ''}}'') key @ replace_placeholders f rest
      | None \<Rightarrow> c # replace_placeholders f cs)"
  by pat_completeness auto
termination
  by (relation "measure (\<lambda>(f, s). length s)") (auto dest: match_placeholder_shorter)

definition resolveTemplate :: "string option \<Rightarrow> sso \<Rightarrow> string option \<Rightarrow> string option" where
  "resolveTemplate templateContent s extra_gameName =
     (case templateContent of
        None \<Rightarrow> None
      | Some content \<Rightarrow>
          if content = [] then None
          else Some (replace_placeholders
                 (\<lambda>match key. case vars_get s extra_gameName key of
                                  Some v \<Rightarrow> js_String v
                                | None \<Rightarrow> match)
                 content))"

text \<open>The per-tick state block; the dash after \<open>Current State\<close> is U+2014, three bytes.\<close>

definition tickState :: "sso \<Rightarrow> string" where
  "tickState s =
     ''Current State '' @ [CHR 0xE2, CHR 0x80, CHR 0x94]
     @ '' Score: '' @ show_int (num_or (gameScore s) 0)
     @ '' | Health: '' @ show_int (num_or (avatarHealthPoints s) 100)
     @ '' | Tick: '' @ show_int (num_or (gameTick s) 0) @ [CHR 0x0A]
     @ ''Available actions: '' @ join '', '' (actions_or_nil s) @ [CHR 0x0A, CHR 0x0A]
     @ ''Choose ONE action. Respond with ONLY the action name (e.g., ACTION_UP).''"

text \<open>\<^verbatim>\<open>[...].filter(Boolean)\<close> on segments that may be \<open>null\<close>: \<open>null\<close> and \<open>''\<close> go.\<close>

definition filter_Boolean :: "string option list \<Rightarrow> string list" where
  "filter_Boolean segs = concat (map (\<lambda>x. case x of None \<Rightarrow> [] | Some t \<Rightarrow> if t = [] then [] else [t]) segs)"

text \<open>\<open>buildPrompt\<close> returns the pair (systemMessage, userMessage).\<close>

definition buildPrompt :: "sso \<Rightarrow> prompt_config option \<Rightarrow> string option \<times> string" where
  "buildPrompt s config =
     (case config of
        None \<Rightarrow> (None, buildDescriptivePrompt s)
      | Some pc \<Rightarrow>
          let systemMessage = resolveTemplate (systemContent pc) s (gameName pc);
              gameContext = resolveTemplate (gameContent pc) s (gameName pc);
              levelContext = resolveTemplate (levelContent pc) s (gameName pc);
              userMessage = join [CHR 0x0A, CHR 0x0A]
                              (filter_Boolean [gameContext, levelContext, Some (tickState s)])
          in (systemMessage, userMessage))"

section \<open>Message channel and relay (llm-client)\<close>

subsection \<open>What the client does to the outside\<close>

text \<open>
  The effects of the client, in the order the code performs them: a write to the socket, a
  console line, an event for the dashboard (\<open>io.emit\<close>), a callback handed to
  \<open>setImmediate\<close> (it closes over the payload and the action just sent), the request to
  the decision backend, and the call of \<open>onSessionEnd\<close>. A console line is named
  after the line of the source that prints it and carries the values that line
  interpolates. The elapsed times in the \<open>llm-reasoning\<close> event and in its console line
  are left out, and so are the headers and sampling settings of the request: they depend
  on nothing but the clock and the configuration, and nothing depends on them.
\<close>

datatype console_line =
    Warn_invalid_format string
  | Log_received string string
  | Warn_no_phase nat
  | Log_sending string
  | Error_cannot_send
  | Error_game_state_parse
  | Error_init_parse
  | Error_end_parse
  | Log_initializing
  | Log_level_ended nat "int option" "string option"
  | Log_llm_completed string
  | Error_async_llm_call
  | Error_socket
  | Log_socket_closed

datatype io_event =
    Session_end nat
  | Game_state "int option" "int option" "int option" "int option" string
  | Llm_error int string
  | Llm_reasoning string "string option" string string "int option" "int option" "int option"
  | Level_end "int option" "string option" "int option" nat

datatype effect =
    Write string
  | Console console_line
  | Emit io_event
  | SetImmediate string string
  | Fetch string "(string \<times> string) list"
  | SessionEndCallback

subsection \<open>What the client takes from the outside\<close>

text \<open>
  \<open>JSON_parse\<close> is \<^verbatim>\<open>JSON.parse\<close> followed by the field reads of the code;
  \<open>None\<close> is the thrown \<open>SyntaxError\<close>. \<open>resolveGamePromptConfig\<close> is the
  configuration resolver of \<open>prompt-store\<close>, which reads files; it always returns a
  configuration.
\<close>

record env =
  JSON_parse :: "string \<Rightarrow> sso option"
  resolveGamePromptConfig :: "int option \<Rightarrow> nat \<Rightarrow> prompt_config"

text \<open>
  What the awaited backend call delivers: \<open>fetch\<close> rejects; the response is not
  \<open>ok\<close> (status and body text); the body is no JSON; or the body is JSON, of which the
  code reads \<open>data.choices\<close>: \<open>None\<close> when there is no such array, else for each choice
  its \<open>message.content\<close> if it has one.
\<close>

datatype backend_reply =
    Fetch_rejected
  | Not_ok int string
  | Body_not_json
  | Body "string option list option"

datatype llm_error = Network_failure | Api_error int string | Malformed_body | No_choices

text \<open>
  The part of \<open>startAsyncLLMCall\<close> between the \<open>await\<close> of \<open>fetch\<close> and the parser:
  either an exception (\<open>Inl\<close>), or the text
  \<^verbatim>\<open>data.choices[0]?.message?.content || ''\<close>.
\<close>

definition response_text :: "backend_reply \<Rightarrow> llm_error + string" where
  "response_text reply =
     (case reply of
        Fetch_rejected \<Rightarrow> Inl Network_failure
      | Not_ok status errorText \<Rightarrow> Inl (Api_error status errorText)
      | Body_not_json \<Rightarrow> Inl Malformed_body
      | Body None \<Rightarrow> Inl No_choices
      | Body (Some []) \<Rightarrow> Inr []
      | Body (Some (choice # _)) \<Rightarrow> Inr (case choice of None \<Rightarrow> [] | Some content \<Rightarrow> content))"

subsection \<open>The session object\<close>

text \<open>
  An invocation that has reached its \<open>await\<close>: what its closure holds for the
  \<open>llm-reasoning\<close> event. \<open>call_id\<close> numbers the invocations of the session.
\<close>

record pending_call =
  call_id :: nat
  call_sso :: sso
  call_prompt :: string
  call_system :: "string option"

text \<open>
  The fields of \<open>LLMClient\<close>. \<open>socket_ready\<close> is the test
  \<^verbatim>\<open>this.socket && !this.socket.destroyed\<close>; \<open>io\<close> and \<open>onSessionEnd\<close> say whether the
  field is set. \<open>lastReceivedMessageId\<close> and \<open>apiKey\<close> are left out: the first is
  written and never read, the second only chooses request headers.

  Three more fields record what the JavaScript run time holds for the client, not the
  object itself: \<open>immediates\<close> is the queue of callbacks given to \<open>setImmediate\<close> and
  not yet run, \<open>inflight\<close> the invocations suspended at their \<open>await\<close>, and
  \<open>started\<close> the clock readings stored into \<open>lastLLMCallTime\<close> by every invocation so
  far, oldest first.
\<close>

record LLMClient =
  socket_ready :: bool
  model :: string
  io :: bool
  buffer :: string
  gameActive :: bool
  pendingLLMAction :: "string option"
  llmCallInProgress :: bool
  lastLLMCallTime :: int
  levelCount :: nat
  onSessionEnd :: bool
  gameId :: "int option"
  client_gameName :: "string option"
  promptConfig :: "prompt_config option"
  immediates :: "(string \<times> string) list"
  inflight :: "pending_call list"
  started :: "int list"

definition new_LLMClient :: "string \<Rightarrow> LLMClient" where
  "new_LLMClient defaultModel =
     \<lparr>socket_ready = False, model = defaultModel, io = False, buffer = [],
      gameActive = False, pendingLLMAction = None, llmCallInProgress = False,
      lastLLMCallTime = 0, levelCount = 0, onSessionEnd = False, gameId = None,
      client_gameName = None, promptConfig = None,
      immediates = [], inflight = [], started = []\<rparr>"

text \<open>
  \<^verbatim>\<open>if (this.promptConfig && !this.promptConfig.gameName) this.promptConfig.gameName = this.gameName\<close>
\<close>

definition ensure_gameName :: "prompt_config \<Rightarrow> string option \<Rightarrow> prompt_config" where
  "ensure_gameName pc name =
     (if gameName pc = None \<or> gameName pc = Some [] then pc\<lparr>gameName := name\<rparr> else pc)"

text \<open>\<open>connect\<close>, up to the moment the connection is established.\<close>

definition connect ::
  "env \<Rightarrow> LLMClient \<Rightarrow> string \<Rightarrow> bool \<Rightarrow> int option \<Rightarrow> string option \<Rightarrow> LLMClient" where
  "connect e st model' io' gameId' gameName' =
     (let name = Some (str_or gameName' ''unknown'')
      in st\<lparr>model := model', io := io', gameActive := True, gameId := gameId',
            client_gameName := name,
            promptConfig := Some (ensure_gameName (resolveGamePromptConfig e gameId' 0) name),
            socket_ready := True\<rparr>)"

subsection \<open>Framing\<close>

text \<open>\<^verbatim>\<open>s.split(c)\<close> for a one-character separator: never the empty array.\<close>

fun split_on :: "char \<Rightarrow> string \<Rightarrow> string list" where
  "split_on c [] = [[]]"
| "split_on c (x # xs) =
     (if x = c then [] # split_on c xs
      else (case split_on c xs of [] \<Rightarrow> [[x]] | w # ws \<Rightarrow> (x # w) # ws))"

text \<open>\<^verbatim>\<open>s.trim()\<close>\<close>

definition js_trim :: "string \<Rightarrow> string" where
  "js_trim s = rev (dropWhile js_space (rev (dropWhile js_space s)))"

text \<open>
  The first lines of \<open>processMessage\<close>: \<^verbatim>\<open>parts = message.split('#')\<close>,
  \<^verbatim>\<open>msgId = parts[0]\<close>, \<^verbatim>\<open>jsonPayload = parts.slice(1).join('#')\<close>.
\<close>

definition frame_parts :: "string \<Rightarrow> string \<times> string" where
  "frame_parts message =
     (case split_on (CHR ''#'') message of
        [] \<Rightarrow> ([], [])
      | msgId # rest \<Rightarrow> (msgId, join ''#'' rest))"

text \<open>
  The messages \<open>handleData\<close> hands to \<open>processMessage\<close> for a chunk, and the new
  buffer. \<open>data\<close> is the text of the chunk, \<open>data.toString()\<close>; for a chunk of ASCII
  bytes that is the bytes themselves. The text joins the buffer and is split at the
  newlines, the last piece stays in the buffer, and every other piece that is not blank is
  dispatched, trimmed.
\<close>

definition frames_of :: "string \<Rightarrow> string \<Rightarrow> string list \<times> string" where
  "frames_of buf data =
     (case rev (split_on (CHR 0x0A) (buf @ data)) of
        [] \<Rightarrow> ([], [])
      | incomplete # complete \<Rightarrow>
          (map js_trim (filter (\<lambda>message. js_trim message \<noteq> []) (rev complete)), incomplete))"

subsection \<open>Phase detection\<close>

text \<open>The marker \<^verbatim>\<open>"phase":"P"\<close> for a phase name \<open>P\<close>.\<close>

definition phase_marker :: "string \<Rightarrow> string" where
  "phase_marker p = [CHR 0x22] @ ''phase'' @ [CHR 0x22] @ '':'' @ [CHR 0x22] @ p @ [CHR 0x22]"

text \<open>The triple (isACT, isINIT, isEND): first on the head of the payload, then on all of it.\<close>

definition detect_phase :: "string \<Rightarrow> bool \<times> bool \<times> bool" where
  "detect_phase jsonPayload =
     (let head = take (min 2000 (length jsonPayload)) jsonPayload;
          isACT = str_includes head (phase_marker ''ACT'');
          isINIT = str_includes head (phase_marker ''INIT'');
          isEND = str_includes head (phase_marker ''END'')
      in if \<not> isACT \<and> \<not> isINIT \<and> \<not> isEND then
           (str_includes jsonPayload (phase_marker ''ACT''),
            str_includes jsonPayload (phase_marker ''INIT''),
            str_includes jsonPayload (phase_marker ''END''))
         else (isACT, isINIT, isEND))"

subsection \<open>Operations of the client\<close>

definition sendMessageWithId :: "LLMClient \<Rightarrow> string \<Rightarrow> string \<Rightarrow> effect list" where
  "sendMessageWithId st msgId msg =
     (if socket_ready st then
        let message = msgId @ ''#'' @ msg @ [CHR 0x0A]
        in [Console (Log_sending (js_trim message)), Write message]
      else [Console Error_cannot_send])"

definition triggerSessionEnd :: "LLMClient \<Rightarrow> LLMClient \<times> effect list" where
  "triggerSessionEnd st =
     (if onSessionEnd st then (st\<lparr>onSessionEnd := False\<rparr>, [SessionEndCallback]) else (st, []))"

text \<open>\<^verbatim>\<open>this.pendingLLMAction || 'ACTION_NIL'\<close>\<close>

definition actionToSend :: "LLMClient \<Rightarrow> string" where
  "actionToSend st = str_or (pendingLLMAction st) ''ACTION_NIL''"

definition handleInit :: "env \<Rightarrow> LLMClient \<Rightarrow> string \<Rightarrow> LLMClient \<times> effect list" where
  "handleInit e st msgId =
     (let st1 = (case gameId st of
                   None \<Rightarrow> st
                 | Some g \<Rightarrow>
                     st\<lparr>promptConfig :=
                          Some (ensure_gameName (resolveGamePromptConfig e (Some g) (levelCount st))
                                  (client_gameName st))\<rparr>)
      in (st1, Console Log_initializing # sendMessageWithId st1 msgId ''INIT_DONE#BOTH''))"

definition handleEnd :: "LLMClient \<Rightarrow> sso \<Rightarrow> string \<Rightarrow> LLMClient \<times> effect list" where
  "handleEnd st s msgId =
     (let st1 = st\<lparr>levelCount := levelCount st + 1, pendingLLMAction := None,
                   llmCallInProgress := False, lastLLMCallTime := 0\<rparr>
      in (st1,
          Console (Log_level_ended (levelCount st1) (gameScore s) (gameWinner s))
          # (if io st1
             then [Emit (Level_end (gameScore s) (gameWinner s) (gameTick s) (levelCount st1))]
             else [])
          @ sendMessageWithId st1 msgId ''END_DONE''))"

text \<open>
  \<open>processMessage\<close>, all of which runs in the turn of the event loop that delivered the
  message: \<open>handleInit\<close> and \<open>handleEnd\<close> contain no \<open>await\<close>. The body outside
  the inner \<open>try\<close> blocks consists of string operations and of \<open>sendMessageWithId\<close>,
  which tests the socket before it writes; none of them throws, so the outer \<open>catch\<close>
  of the source has no branch here.
\<close>

definition processMessage :: "env \<Rightarrow> LLMClient \<Rightarrow> string \<Rightarrow> LLMClient \<times> effect list" where
  "processMessage e st message =
     (let (msgId, jsonPayload) = frame_parts message in
      if jsonPayload = [] then (st, [Console (Warn_invalid_format message)])
      else if jsonPayload = ''START'' then
        (st, Console (Log_received msgId ''START'') # sendMessageWithId st msgId ''START_DONE'')
      else if jsonPayload = ''FINISH'' then
        (let st1 = st\<lparr>gameActive := False\<rparr>;
             (st2, called) = triggerSessionEnd st1
         in (st2,
             Console (Log_received msgId ''FINISH'')
             # (if io st1 then [Emit (Session_end (levelCount st1))] else [])
             @ called))
      else
        (let (isACT, isINIT, isEND) = detect_phase jsonPayload in
         if isACT then
           (let a = actionToSend st
            in (st\<lparr>immediates := immediates st @ [(jsonPayload, a)]\<rparr>,
                sendMessageWithId st msgId (a @ ''#IMAGE'') @ [SetImmediate jsonPayload a]))
         else if isINIT then
           (case JSON_parse e jsonPayload of
              Some _ \<Rightarrow>
                (let (st1, effs) = handleInit e st msgId
                 in (st1, Console (Log_received msgId ''INIT'') # effs))
            | None \<Rightarrow> (st, Console Error_init_parse # sendMessageWithId st msgId ''INIT_FAILED''))
         else if isEND then
           (case JSON_parse e jsonPayload of
              Some s \<Rightarrow>
                (let (st1, effs) = handleEnd st s msgId
                 in (st1, Console (Log_received msgId ''END'') # effs))
            | None \<Rightarrow> (st, Console Error_end_parse # sendMessageWithId st msgId ''END_FAILED''))
         else (st, [Console (Warn_no_phase (length jsonPayload))])))"

text \<open>\<open>handleData\<close>: the chunk joins the buffer, the complete messages are processed in order.\<close>

fun process_all :: "env \<Rightarrow> LLMClient \<Rightarrow> string list \<Rightarrow> LLMClient \<times> effect list" where
  "process_all e st [] = (st, [])"
| "process_all e st (message # messages) =
     (let (st1, effs1) = processMessage e st message;
          (st2, effs2) = process_all e st1 messages
      in (st2, effs1 @ effs2))"

definition handleData :: "env \<Rightarrow> LLMClient \<Rightarrow> string \<Rightarrow> LLMClient \<times> effect list" where
  "handleData e st data =
     (let (messages, rest) = frames_of (buffer st) data
      in process_all e (st\<lparr>buffer := rest\<rparr>) messages)"

text \<open>
  \<open>startAsyncLLMCall\<close> up to its \<open>await\<close>; \<open>t\<close> is the reading of \<open>Date.now()\<close>
  stored into \<open>lastLLMCallTime\<close>. When the payload does not parse, the exception is
  caught and \<open>finally\<close> clears the flag in the same turn; otherwise the request goes out
  and the invocation waits in \<open>inflight\<close>.
\<close>

definition startAsyncLLMCall :: "env \<Rightarrow> LLMClient \<Rightarrow> string \<Rightarrow> int \<Rightarrow> LLMClient \<times> effect list" where
  "startAsyncLLMCall e st jsonPayload t =
     (let st1 = st\<lparr>llmCallInProgress := True, lastLLMCallTime := t, started := started st @ [t]\<rparr>
      in case JSON_parse e jsonPayload of
           None \<Rightarrow> (st1\<lparr>llmCallInProgress := False\<rparr>, [Console Error_async_llm_call])
         | Some s \<Rightarrow>
             (let (systemMessage, userMessage) = buildPrompt s (promptConfig st1);
                  messages =
                    (case systemMessage of
                       None \<Rightarrow> []
                     | Some sm \<Rightarrow> if sm = [] then [] else [(''system'', sm)])
                    @ [(''user'', userMessage)];
                  call = \<lparr>call_id = length (started st), call_sso = s,
                          call_prompt = userMessage, call_system = systemMessage\<rparr>
              in (st1\<lparr>inflight := inflight st1 @ [call]\<rparr>, [Fetch (model st1) messages])))"

text \<open>
  The callback given to \<open>setImmediate\<close> by the \<open>ACT\<close> branch, run for the oldest entry
  of the queue; \<open>now\<close> is the reading of \<open>Date.now()\<close> in the callback, \<open>t\<close> the one
  inside \<open>startAsyncLLMCall\<close>.
\<close>

definition run_immediate :: "env \<Rightarrow> LLMClient \<Rightarrow> int \<Rightarrow> int \<Rightarrow> LLMClient \<times> effect list" where
  "run_immediate e st now t =
     (case immediates st of
        [] \<Rightarrow> (st, [])
      | (jsonPayload, sent) # rest \<Rightarrow>
          (let st0 = st\<lparr>immediates := rest\<rparr>;
               ui = (case JSON_parse e jsonPayload of
                       Some s \<Rightarrow>
                         if io st0
                         then [Emit (Game_state (gameScore s) (avatarHealthPoints s)
                                       (avatarMaxHealthPoints s) (gameTick s) sent)]
                         else []
                     | None \<Rightarrow> [Console Error_game_state_parse])
           in if \<not> llmCallInProgress st0 \<and> now - lastLLMCallTime st0 \<ge> 400 then
                (let (st1, effs) = startAsyncLLMCall e st0 jsonPayload t in (st1, ui @ effs))
              else (st0, ui)))"

text \<open>
  The rest of \<open>startAsyncLLMCall\<close>, run when the backend call of invocation \<open>n\<close>
  settles: on an exception only \<open>finally\<close> touches the session, otherwise the parsed
  action is stored first.
\<close>

definition complete_call :: "LLMClient \<Rightarrow> nat \<Rightarrow> backend_reply \<Rightarrow> LLMClient \<times> effect list" where
  "complete_call st n reply =
     (case find (\<lambda>c. call_id c = n) (inflight st) of
        None \<Rightarrow> (st, [])
      | Some call \<Rightarrow>
          (let st0 = st\<lparr>inflight := filter (\<lambda>c. call_id c \<noteq> n) (inflight st)\<rparr>
           in case response_text reply of
                Inl err \<Rightarrow>
                  (st0\<lparr>llmCallInProgress := False\<rparr>,
                   (case err of
                      Api_error status errorText \<Rightarrow>
                        if io st0 then [Emit (Llm_error status errorText)] else []
                    | _ \<Rightarrow> [])
                   @ [Console Error_async_llm_call])
              | Inr llmResponse \<Rightarrow>
                  (let action = parseAction llmResponse VALID_ACTIONS
                   in (st0\<lparr>pendingLLMAction := Some action, llmCallInProgress := False\<rparr>,
                       Console (Log_llm_completed action)
                       # (if io st0
                          then [Emit (Llm_reasoning (call_prompt call) (call_system call)
                                        llmResponse action (gameScore (call_sso call))
                                        (avatarHealthPoints (call_sso call))
                                        (gameTick (call_sso call)))]
                          else [])))))"

text \<open>
  The handlers of the socket's \<open>error\<close> and \<open>close\<close> events. Node raises both on a
  socket that is destroyed, so the test of \<open>sendMessageWithId\<close> fails from then on.
\<close>

definition socket_down :: "LLMClient \<Rightarrow> console_line \<Rightarrow> LLMClient \<times> effect list" where
  "socket_down st line =
     (let (st1, called) = triggerSessionEnd (st\<lparr>gameActive := False, socket_ready := False\<rparr>)
      in (st1, Console line # called))"

text \<open>\<open>disconnect\<close>: the callback is dropped and the socket destroyed.\<close>

definition disconnect :: "LLMClient \<Rightarrow> LLMClient" where
  "disconnect st = st\<lparr>gameActive := False, onSessionEnd := False, socket_ready := False\<rparr>"

subsection \<open>The session as a run of events\<close>

text \<open>
  One turn of the event loop that concerns the client: a message dispatched by
  \<open>handleData\<close>, the oldest \<open>setImmediate\<close> callback with its two clock readings, the
  settling of the backend call of an invocation, a socket event, or \<open>disconnect\<close>.
\<close>

datatype event =
    Message string
  | Immediate int int
  | LLM_done nat backend_reply
  | Socket_error
  | Socket_close
  | Disconnect

fun step :: "env \<Rightarrow> LLMClient \<Rightarrow> event \<Rightarrow> LLMClient \<times> effect list" where
  "step e st (Message message) = processMessage e st message"
| "step e st (Immediate now t) = run_immediate e st now t"
| "step e st (LLM_done n reply) = complete_call st n reply"
| "step e st Socket_error = socket_down st Error_socket"
| "step e st Socket_close = socket_down st Log_socket_closed"
| "step e st Disconnect = (disconnect st, [])"

fun run :: "env \<Rightarrow> LLMClient \<Rightarrow> event list \<Rightarrow> LLMClient \<times> effect list" where
  "run e st [] = (st, [])"
| "run e st (ev # evs) =
     (let (st1, effs1) = step e st ev;
          (st2, effs2) = run e st1 evs
      in (st2, effs1 @ effs2))"

subsection \<open>Predicates of the claims\<close>

text \<open>The payload reaches the \<open>ACT\<close> branch of \<open>processMessage\<close>.\<close>

definition classified_ACT :: "string \<Rightarrow> bool" where
  "classified_ACT jsonPayload =
     (jsonPayload \<noteq> [] \<and> jsonPayload \<noteq> ''START'' \<and> jsonPayload \<noteq> ''FINISH''
      \<and> fst (detect_phase jsonPayload))"

text \<open>The message reaches \<open>handleEnd\<close>: its payload is classified \<open>END\<close> and parses.\<close>

definition runs_handleEnd :: "env \<Rightarrow> string \<Rightarrow> bool" where
  "runs_handleEnd e message =
     (let (msgId, jsonPayload) = frame_parts message;
          (isACT, isINIT, isEND) = detect_phase jsonPayload
      in jsonPayload \<noteq> [] \<and> jsonPayload \<noteq> ''START'' \<and> jsonPayload \<noteq> ''FINISH''
         \<and> \<not> isACT \<and> \<not> isINIT \<and> isEND \<and> JSON_parse e jsonPayload \<noteq> None)"

text \<open>The event is a message that reaches \<open>handleEnd\<close>.\<close>

definition ends_level :: "env \<Rightarrow> event \<Rightarrow> bool" where
  "ends_level e ev = (case ev of Message message \<Rightarrow> runs_handleEnd e message | _ \<Rightarrow> False)"

text \<open>
  In a \<open>setImmediate\<close> callback the clock reading inside \<open>startAsyncLLMCall\<close> is not
  before the reading taken for the admission test.
\<close>

definition clock_forward :: "event \<Rightarrow> bool" where
  "clock_forward ev = (case ev of Immediate now t \<Rightarrow> now \<le> t | _ \<Rightarrow> True)"

text \<open>Consecutive invocation starts, oldest first, are at least 400 ms apart.\<close>

fun spaced :: "int list \<Rightarrow> bool" where
  "spaced (t1 # t2 # ts) = (t2 - t1 \<ge> 400 \<and> spaced (t2 # ts))"
| "spaced _ = True"

text \<open>
  What the admission test relies on while no level ends: the flag is set exactly while an
  invocation is in flight, there is at most one, and the starts from the \<open>k\<close>-th on are
  spaced, \<open>lastLLMCallTime\<close> being the latest of them.
\<close>

definition admission_inv :: "nat \<Rightarrow> LLMClient \<Rightarrow> bool" where
  "admission_inv k st =
     ((llmCallInProgress st \<longleftrightarrow> inflight st \<noteq> [])
      \<and> length (inflight st) \<le> 1
      \<and> k \<le> length (started st)
      \<and> spaced (drop k (started st))
      \<and> (k < length (started st) \<longrightarrow> last (started st) = lastLLMCallTime st))"

text \<open>
  No invocation is in flight and the flag is clear, as after \<open>new LLMClient()\<close> and
  \<open>connect\<close>.
\<close>

definition no_invocation_in_flight :: "LLMClient \<Rightarrow> bool" where
  "no_invocation_in_flight st = (inflight st = [] \<and> \<not> llmCallInProgress st)"

subsection \<open>A sample session\<close>

definition sample_sso :: sso where
  "sample_sso =
     \<lparr>gameScore = Some 42, avatarHealthPoints = Some 3, avatarMaxHealthPoints = Some 5,
      gameTick = Some 7, avatarPosition = Some (3, - 4),
      availableActions = Some [''ACTION_UP'', ''ACTION_LEFT''], gameWinner = None\<rparr>"

text \<open>A stand-in for \<open>JSON.parse\<close>: text in braces parses to the sample snapshot.\<close>

definition sample_env :: env where
  "sample_env =
     \<lparr>JSON_parse = (\<lambda>s. if prefix ''{'' s \<and> suffix ''}'' s then Some sample_sso else None),
      resolveGamePromptConfig =
        (\<lambda>g level. \<lparr>systemContent = Some ''You play {{gameName}}.'', gameContent = None,
                     levelContent = None, gameName = None\<rparr>)\<rparr>"

definition sample_client :: LLMClient where
  "sample_client =
     connect sample_env ((new_LLMClient ''llama3'')\<lparr>onSessionEnd := True\<rparr>)
       ''llama3'' True (Some 0) (Some ''aliens'')"

definition act_message :: "string \<Rightarrow> string" where
  "act_message msgId = msgId @ ''#{'' @ phase_marker ''ACT'' @ ''}''"

definition end_message :: "string \<Rightarrow> string" where
  "end_message msgId = msgId @ ''#{'' @ phase_marker ''END'' @ ''}''"

text \<open>The sample session with a cached action, one tick later: invocation 0 is in flight.\<close>

definition sample_busy :: LLMClient where
  "sample_busy =
     fst (run sample_env (sample_client\<lparr>pendingLLMAction := Some ''ACTION_LEFT''\<rparr>)
            [Message (act_message ''1''), Immediate 1000 1000])"

definition reply_up :: backend_reply where
  "reply_up = Body (Some [Some ''I choose ACTION_UP''])"

text \<open>Five ticks of one level, faster than the minimum interval.\<close>

definition sample_ticks :: "event list" where
  "sample_ticks =
     [Message (act_message ''1''), Immediate 1000 1001,
      Message (act_message ''2''), Message (act_message ''3''),
      Immediate 1100 1100, Immediate 1300 1300,
      LLM_done 0 reply_up,
      Message (act_message ''4''), Immediate 1399 1399,
      Message (act_message ''5''), Immediate 1401 1405]"

text \<open>Two ticks with a level end between them, while invocation 0 is still in flight.\<close>

definition sample_two_levels :: "event list" where
  "sample_two_levels =
     [Message (act_message ''1''), Immediate 1000 1000,
      Message (end_message ''2''),
      Message (act_message ''3''), Immediate 1100 1100]"

text \<open>
  What the channel makes of a chunk: the pairs (msgId, jsonPayload) that \<open>processMessage\<close>
  computes for the messages \<open>handleData\<close> dispatches.
\<close>

definition decoded :: "string \<Rightarrow> string \<Rightarrow> (string \<times> string) list" where
  "decoded buf data = map frame_parts (fst (frames_of buf data))"

text \<open>White space stripped at the end only, as \<open>trim\<close> does to the end of a line.\<close>

definition trim_end :: "string \<Rightarrow> string" where
  "trim_end s = rev (dropWhile js_space (rev s))"


text \<open>
  A frame as the pair of its correlation id and its payload; on the wire it is
  \<open>frame_text\<close> followed by a newline. In a plain frame the id has no \<open>#\<close> and
  neither part has a newline.
\<close>

definition frame_text :: "string \<times> string \<Rightarrow> string" where
  "frame_text f = fst f @ ''#'' @ snd f"

definition plain_frame :: "string \<times> string \<Rightarrow> bool" where
  "plain_frame f = (CHR ''#'' \<notin> set (fst f) \<and> CHR 0x0A \<notin> set (fst f @ snd f))"

text \<open>What \<open>trim\<close> leaves of a frame: the id without leading, the payload without trailing white space.\<close>

definition trimmed_frame :: "string \<times> string \<Rightarrow> string \<times> string" where
  "trimmed_frame f = (dropWhile js_space (fst f), trim_end (snd f))"

definition no_outer_space :: "string \<times> string \<Rightarrow> bool" where
  "no_outer_space f =
     ((fst f = [] \<or> \<not> js_space (hd (fst f))) \<and> (snd f = [] \<or> \<not> js_space (last (snd f))))"

section \<open>The parser: what the two tiers compute\<close>

lemma str_includes_sublist: "str_includes t a = sublist a t"
  by (induction t) (simp_all add: sublist_Cons_right)

lemma match_action_at_sublist:
  assumes "match_action_at s = Some m"
  shows "sublist m s"
proof -
  define r where "r = dropWhile js_space (drop 7 s)"
  define w where "w = takeWhile js_word (drop 7 r)"
  from assms have p: "prefix ''ACTION_'' r" and m: "m = ''ACTION_'' @ w"
    by (auto simp: match_action_at_def r_def w_def Let_def split: if_splits)
  from p obtain rest where r: "r = ''ACTION_'' @ rest"
    by (auto simp: prefix_def)
  then have "drop 7 r = rest" by simp
  then have "prefix w rest"
    unfolding w_def by (metis takeWhile_dropWhile_id prefixI)
  then have "prefix m r" using m r by simp
  moreover have "suffix r s"
    unfolding r_def by (meson suffix_dropWhile suffix_drop suffix_order.trans)
  ultimately show ?thesis
    using sublist_altdef' by blast
qed

lemma match_action_sublist: "match_action t = Some m \<Longrightarrow> sublist m t"
proof (induction t)
  case Nil
  then show ?case by simp
next
  case (Cons c cs)
  show ?case
  proof (cases "match_action_at (c # cs)")
    case None
    with Cons have "sublist m cs" by simp
    then show ?thesis by (simp add: sublist_Cons_right)
  next
    case (Some a)
    with Cons.prems have "a = m" by simp
    with Some show ?thesis by (simp add: match_action_at_sublist)
  qed
qed

text \<open>
  C10. The second tier of \<open>parseAction\<close> never decides: a token captured by the structured
  pattern is a piece of the upper-cased text, so if it is legal the first tier has found it
  (or an earlier legal token) already. \<open>parseAction\<close> equals the parser that has the
  first tier only, for every response and every list of legal actions.
\<close>

theorem parseAction_second_tier_never_decides:
  "parseAction response legal = parseAction_tier1 response legal"
proof (cases "find (\<lambda>action. str_includes (toUpperCase response) action) legal")
  case (Some a)
  then show ?thesis by (simp add: parseAction_def parseAction_tier1_def)
next
  case None
  then have no: "\<forall>a\<in>set legal. \<not> sublist a (toUpperCase response)"
    by (simp add: find_None_iff str_includes_sublist)
  have "m \<notin> set legal" if "match_action (toUpperCase response) = Some m" for m
    using that no match_action_sublist by auto
  with None show ?thesis
    by (auto simp: parseAction_def parseAction_tier1_def split: option.splits)
qed



















section \<open>The relay: replies, cache and admission control\<close>

lemma actionToSend_cases:
  "actionToSend st =
     (case pendingLLMAction st of
        None \<Rightarrow> ''ACTION_NIL''
      | Some a \<Rightarrow> if a = [] then ''ACTION_NIL'' else a)"
  by (simp add: actionToSend_def str_or_def)

lemma processMessage_ACT:
  assumes "frame_parts message = (msgId, jsonPayload)"
    and "classified_ACT jsonPayload"
  shows "processMessage e st message =
           (st\<lparr>immediates := immediates st @ [(jsonPayload, actionToSend st)]\<rparr>,
            sendMessageWithId st msgId (actionToSend st @ ''#IMAGE'')
            @ [SetImmediate jsonPayload (actionToSend st)])"
proof -
  obtain isINIT isEND where "detect_phase jsonPayload = (True, isINIT, isEND)"
    using assms(2) by (cases "detect_phase jsonPayload") (auto simp: classified_ACT_def)
  with assms show ?thesis
    by (simp add: processMessage_def classified_ACT_def Let_def)
qed

text \<open>
  C1. A message classified \<open>ACT\<close> is answered in the turn that delivers it, before the
  hand-over to \<open>setImmediate\<close>: \<open>processMessage\<close> first sends the cached action
  (\<open>ACTION_NIL\<close> when there is none) with the marker \<open>#IMAGE\<close> under the incoming
  correlation id, then queues the callback, and does nothing else in that turn: no
  snapshot is parsed, no event emitted, no invocation started, and the session object is
  unchanged but for the queued callback. On an open connection the send is the write of
  the frame \<open><id>#<action>#IMAGE\<close> and a newline (on a closed one
  \<open>sendMessageWithId\<close> only logs).
\<close>

theorem act_reply_precedes_deferred_work:
  assumes "frame_parts message = (msgId, jsonPayload)"
    and "classified_ACT jsonPayload"
  shows "processMessage e st message =
           (st\<lparr>immediates := immediates st @ [(jsonPayload, actionToSend st)]\<rparr>,
            sendMessageWithId st msgId (actionToSend st @ ''#IMAGE'')
            @ [SetImmediate jsonPayload (actionToSend st)])
         \<and> (socket_ready st \<longrightarrow>
              sendMessageWithId st msgId (actionToSend st @ ''#IMAGE'') =
                [Console (Log_sending
                   (js_trim (msgId @ ''#'' @ actionToSend st @ ''#IMAGE'' @ [CHR 0x0A]))),
                 Write (msgId @ ''#'' @ actionToSend st @ ''#IMAGE'' @ [CHR 0x0A])])
         \<and> actionToSend st =
             (case pendingLLMAction st of
                None \<Rightarrow> ''ACTION_NIL''
              | Some a \<Rightarrow> if a = [] then ''ACTION_NIL'' else a)"
  using processMessage_ACT [OF assms, of e st]
  by (simp add: sendMessageWithId_def Let_def actionToSend_cases)

theorem act_reply_precedes_deferred_work_witness:
  "socket_ready sample_client
   \<and> frame_parts (act_message ''3'') = (''3'', ''{'' @ phase_marker ''ACT'' @ ''}'')
   \<and> classified_ACT (''{'' @ phase_marker ''ACT'' @ ''}'')
   \<and> snd (processMessage sample_env sample_client (act_message ''3'')) =
       [Console (Log_sending (''3#ACTION_NIL#IMAGE'')),
        Write (''3#ACTION_NIL#IMAGE'' @ [CHR 0x0A]),
        SetImmediate (''{'' @ phase_marker ''ACT'' @ ''}'') ''ACTION_NIL'']"
proof -
  have 1: "socket_ready sample_client" by code_simp
  have 2: "frame_parts (act_message ''3'') = (''3'', ''{'' @ phase_marker ''ACT'' @ ''}'')"
    by code_simp
  have 3: "classified_ACT (''{'' @ phase_marker ''ACT'' @ ''}'')" by code_simp
  have 4: "actionToSend sample_client = ''ACTION_NIL''" by code_simp
  have 5: "js_trim (''3#ACTION_NIL#IMAGE'' @ [CHR 0x0A]) = ''3#ACTION_NIL#IMAGE''" by code_simp
  from act_reply_precedes_deferred_work [OF 2 3, of sample_env sample_client] 1 2 3 4 5
  show ?thesis by simp
qed

lemma run_immediate_unparsable:
  assumes "immediates st = (jsonPayload, sent) # rest"
    and "JSON_parse e jsonPayload = None"
  shows "snd (run_immediate e st now t) \<in>
           {[Console Error_game_state_parse],
            [Console Error_game_state_parse, Console Error_async_llm_call]}
         \<and> pendingLLMAction (fst (run_immediate e st now t)) = pendingLLMAction st
         \<and> inflight (fst (run_immediate e st now t)) = inflight st"
  using assms by (simp add: run_immediate_def startAsyncLLMCall_def Let_def)

lemma includes_take: "str_includes (take n p) m \<Longrightarrow> str_includes p m"
  unfolding str_includes_sublist
  by (meson prefix_imp_sublist sublist_order.order_trans take_is_prefix)

lemma detect_phase_none_iff:
  "detect_phase p = (False, False, False) \<longleftrightarrow>
     \<not> str_includes p (phase_marker ''ACT'') \<and> \<not> str_includes p (phase_marker ''INIT'')
     \<and> \<not> str_includes p (phase_marker ''END'')"
  using includes_take [of "min 2000 (length p)" p]
  by (auto simp: detect_phase_def Let_def)

lemma classified_ACT_iff:
  "classified_ACT p \<longleftrightarrow>
     p \<noteq> [] \<and> p \<noteq> ''START'' \<and> p \<noteq> ''FINISH''
     \<and> (str_includes (take 2000 p) (phase_marker ''ACT'')
        \<or> (\<not> str_includes (take 2000 p) (phase_marker ''INIT'')
           \<and> \<not> str_includes (take 2000 p) (phase_marker ''END'')
           \<and> str_includes p (phase_marker ''ACT'')))"
proof -
  have "take (min 2000 (length p)) p = take 2000 p" by (simp add: min_def)
  then show ?thesis
    by (auto simp: classified_ACT_def detect_phase_def Let_def)
qed

text \<open>
  C5, as the code has it. A payload is handled as an \<open>ACT\<close> tick when it is not empty,
  is neither \<open>START\<close> nor \<open>FINISH\<close>, and has the \<open>ACT\<close> marker in its first 2000
  characters, or has no phase marker in its first 2000 characters and the \<open>ACT\<close> marker
  somewhere. On an open connection such a message is answered at once with the cached
  action (or \<open>ACTION_NIL\<close>) under the incoming id, whether or not the payload is valid
  JSON: the parse failures of the deferred callback are caught there, are logged, and
  change neither the cache nor the set of invocations in flight. A message whose payload
  is neither \<open>START\<close> nor \<open>FINISH\<close> and has no phase marker anywhere, and a message
  with an empty payload, are logged and get no reply at all.
\<close>

theorem act_reply_despite_malformed_payload:
  "(classified_ACT jsonPayload \<longleftrightarrow>
      jsonPayload \<noteq> [] \<and> jsonPayload \<noteq> ''START'' \<and> jsonPayload \<noteq> ''FINISH''
      \<and> (str_includes (take 2000 jsonPayload) (phase_marker ''ACT'')
         \<or> (\<not> str_includes (take 2000 jsonPayload) (phase_marker ''INIT'')
            \<and> \<not> str_includes (take 2000 jsonPayload) (phase_marker ''END'')
            \<and> str_includes jsonPayload (phase_marker ''ACT''))))
   \<and> (socket_ready st \<and> frame_parts message = (msgId, jsonPayload)
      \<and> classified_ACT jsonPayload
    \<longrightarrow> processMessage e st message =
          (st\<lparr>immediates := immediates st @ [(jsonPayload, actionToSend st)]\<rparr>,
           [Console (Log_sending (js_trim (msgId @ ''#'' @ actionToSend st @ ''#IMAGE'' @ [CHR 0x0A]))),
            Write (msgId @ ''#'' @ actionToSend st @ ''#IMAGE'' @ [CHR 0x0A]),
            SetImmediate jsonPayload (actionToSend st)]))
   \<and> (immediates st = (jsonPayload, sent) # rest \<and> JSON_parse e jsonPayload = None
    \<longrightarrow> snd (run_immediate e st now t) \<in>
           {[Console Error_game_state_parse],
            [Console Error_game_state_parse, Console Error_async_llm_call]}
        \<and> pendingLLMAction (fst (run_immediate e st now t)) = pendingLLMAction st
        \<and> inflight (fst (run_immediate e st now t)) = inflight st)
   \<and> (frame_parts message = (msgId, jsonPayload)
      \<and> jsonPayload \<noteq> [] \<and> jsonPayload \<noteq> ''START'' \<and> jsonPayload \<noteq> ''FINISH''
      \<and> \<not> str_includes jsonPayload (phase_marker ''ACT'')
      \<and> \<not> str_includes jsonPayload (phase_marker ''INIT'')
      \<and> \<not> str_includes jsonPayload (phase_marker ''END'')
    \<longrightarrow> processMessage e st message = (st, [Console (Warn_no_phase (length jsonPayload))]))
   \<and> (frame_parts message = (msgId, [])
    \<longrightarrow> processMessage e st message = (st, [Console (Warn_invalid_format message)]))"
proof (intro conjI impI)
  show "classified_ACT jsonPayload \<longleftrightarrow>
      jsonPayload \<noteq> [] \<and> jsonPayload \<noteq> ''START'' \<and> jsonPayload \<noteq> ''FINISH''
      \<and> (str_includes (take 2000 jsonPayload) (phase_marker ''ACT'')
         \<or> (\<not> str_includes (take 2000 jsonPayload) (phase_marker ''INIT'')
            \<and> \<not> str_includes (take 2000 jsonPayload) (phase_marker ''END'')
            \<and> str_includes jsonPayload (phase_marker ''ACT'')))"
    by (rule classified_ACT_iff)
next
  assume a: "socket_ready st \<and> frame_parts message = (msgId, jsonPayload)
      \<and> classified_ACT jsonPayload"
  then show "processMessage e st message =
          (st\<lparr>immediates := immediates st @ [(jsonPayload, actionToSend st)]\<rparr>,
           [Console (Log_sending (js_trim (msgId @ ''#'' @ actionToSend st @ ''#IMAGE'' @ [CHR 0x0A]))),
            Write (msgId @ ''#'' @ actionToSend st @ ''#IMAGE'' @ [CHR 0x0A]),
            SetImmediate jsonPayload (actionToSend st)])"
    using processMessage_ACT [of message msgId jsonPayload e st]
    by (simp add: sendMessageWithId_def Let_def)
next
  assume "immediates st = (jsonPayload, sent) # rest \<and> JSON_parse e jsonPayload = None"
  then show "snd (run_immediate e st now t) \<in>
           {[Console Error_game_state_parse],
            [Console Error_game_state_parse, Console Error_async_llm_call]}"
    and "pendingLLMAction (fst (run_immediate e st now t)) = pendingLLMAction st"
    and "inflight (fst (run_immediate e st now t)) = inflight st"
    using run_immediate_unparsable [of st jsonPayload sent rest e now t] by simp_all
next
  assume "frame_parts message = (msgId, jsonPayload)
      \<and> jsonPayload \<noteq> [] \<and> jsonPayload \<noteq> ''START'' \<and> jsonPayload \<noteq> ''FINISH''
      \<and> \<not> str_includes jsonPayload (phase_marker ''ACT'')
      \<and> \<not> str_includes jsonPayload (phase_marker ''INIT'')
      \<and> \<not> str_includes jsonPayload (phase_marker ''END'')"
  then show "processMessage e st message = (st, [Console (Warn_no_phase (length jsonPayload))])"
    using detect_phase_none_iff [of jsonPayload] by (simp add: processMessage_def)
next
  assume "frame_parts message = (msgId, [])"
  then show "processMessage e st message = (st, [Console (Warn_invalid_format message)])"
    by (simp add: processMessage_def)
qed

theorem act_reply_despite_malformed_payload_witness:
  "socket_ready sample_client
   \<and> frame_parts (''7#{'' @ phase_marker ''ACT'') = (''7'', ''{'' @ phase_marker ''ACT'')
   \<and> classified_ACT (''{'' @ phase_marker ''ACT'')
   \<and> JSON_parse sample_env (''{'' @ phase_marker ''ACT'') = None
   \<and> snd (processMessage sample_env sample_client (''7#{'' @ phase_marker ''ACT'')) =
       [Console (Log_sending ''7#ACTION_NIL#IMAGE''),
        Write (''7#ACTION_NIL#IMAGE'' @ [CHR 0x0A]),
        SetImmediate (''{'' @ phase_marker ''ACT'') ''ACTION_NIL'']
   \<and> immediates (fst (processMessage sample_env sample_client (''7#{'' @ phase_marker ''ACT'')))
       = [(''{'' @ phase_marker ''ACT'', ''ACTION_NIL'')]
   \<and> pendingLLMAction
         (fst (run_immediate sample_env
                 (fst (processMessage sample_env sample_client (''7#{'' @ phase_marker ''ACT'')))
                 1000 1000))
       = None
   \<and> frame_parts ''7#{}'' = (''7'', ''{}'')
   \<and> \<not> str_includes ''{}'' (phase_marker ''ACT'')
   \<and> \<not> str_includes ''{}'' (phase_marker ''INIT'')
   \<and> \<not> str_includes ''{}'' (phase_marker ''END'')
   \<and> processMessage sample_env sample_client ''7#{}'' = (sample_client, [Console (Warn_no_phase 2)])
   \<and> frame_parts ''7#'' = (''7'', [])
   \<and> processMessage sample_env sample_client ''7#'' = (sample_client, [Console (Warn_invalid_format ''7#'')])"
proof -
  let ?p = "''{'' @ phase_marker ''ACT''"
  let ?st1 = "fst (processMessage sample_env sample_client (''7#'' @ ?p))"
  have 1: "socket_ready sample_client" by code_simp
  have 2: "frame_parts (''7#'' @ ?p) = (''7'', ?p)" by code_simp
  have 3: "classified_ACT ?p" by code_simp
  have 4: "JSON_parse sample_env ?p = None" by code_simp
  have 5: "actionToSend sample_client = ''ACTION_NIL''" by code_simp
  have 6: "js_trim (''7#ACTION_NIL#IMAGE'' @ [CHR 0x0A]) = ''7#ACTION_NIL#IMAGE''" by code_simp
  have 7: "immediates sample_client = []" by code_simp
  have 8: "pendingLLMAction sample_client = None" by code_simp
  have 9: "frame_parts ''7#{}'' = (''7'', ''{}'')" by code_simp
  have 10: "\<not> str_includes ''{}'' (phase_marker ''ACT'')"
    "\<not> str_includes ''{}'' (phase_marker ''INIT'')"
    "\<not> str_includes ''{}'' (phase_marker ''END'')"
    by code_simp+
  have 11: "frame_parts ''7#'' = (''7'', [])" by code_simp
  note a = act_reply_despite_malformed_payload
             [where st = sample_client and message = "''7#'' @ ?p" and msgId = "''7''"
                and jsonPayload = ?p and e = sample_env]
  from a 1 2 3 4 have pm: "processMessage sample_env sample_client (''7#'' @ ?p) =
      (sample_client\<lparr>immediates := immediates sample_client @ [(?p, actionToSend sample_client)]\<rparr>,
       [Console (Log_sending (js_trim (''7'' @ ''#'' @ actionToSend sample_client @ ''#IMAGE'' @ [CHR 0x0A]))),
        Write (''7'' @ ''#'' @ actionToSend sample_client @ ''#IMAGE'' @ [CHR 0x0A]),
        SetImmediate ?p (actionToSend sample_client)])"
    by blast
  then have q: "immediates ?st1 = (?p, ''ACTION_NIL'') # []" and c: "pendingLLMAction ?st1 = None"
    using 5 7 8 by simp_all
  note b = act_reply_despite_malformed_payload
             [where st = ?st1 and jsonPayload = ?p and e = sample_env
                and sent = "''ACTION_NIL''" and rest = "[]" and now = 1000 and t = 1000]
  from b q 4 have "pendingLLMAction (fst (run_immediate sample_env ?st1 1000 1000)) = pendingLLMAction ?st1"
    by blast
  with c have r: "pendingLLMAction (fst (run_immediate sample_env ?st1 1000 1000)) = None" by simp
  note n = act_reply_despite_malformed_payload
             [where st = sample_client and message = "''7#{}''" and msgId = "''7''"
                and jsonPayload = "''{}''" and e = sample_env]
  from n 9 10 have np: "processMessage sample_env sample_client ''7#{}''
      = (sample_client, [Console (Warn_no_phase (length ''{}''))])"
    by simp
  note m = act_reply_despite_malformed_payload
             [where st = sample_client and message = "''7#''" and msgId = "''7''"
                and jsonPayload = "[]" and e = sample_env]
  from m 11 have ip: "processMessage sample_env sample_client ''7#''
      = (sample_client, [Console (Warn_invalid_format ''7#'')])"
    by simp
  from 1 2 3 4 pm q r 9 10 np 11 ip 5 6 show ?thesis by simp
qed

text \<open>
  C5 as stated fails: on an open connection the message \<open>7#{}\<close>, whose phase cannot be
  determined, produces one console line and no write to the socket.
\<close>

theorem no_reply_without_phase_marker:
  "socket_ready sample_client
   \<and> snd (processMessage sample_env sample_client ''7#{}'') = [Console (Warn_no_phase 2)]"
  by code_simp

lemma processMessage_within_level:
  assumes "\<not> runs_handleEnd e message"
  shows "pendingLLMAction (fst (processMessage e st message)) = pendingLLMAction st"
    and "llmCallInProgress (fst (processMessage e st message)) = llmCallInProgress st"
    and "lastLLMCallTime (fst (processMessage e st message)) = lastLLMCallTime st"
    and "inflight (fst (processMessage e st message)) = inflight st"
    and "started (fst (processMessage e st message)) = started st"
  using assms
  by (auto simp: processMessage_def runs_handleEnd_def handleInit_def triggerSessionEnd_def
      Let_def split: prod.splits option.splits if_splits)


lemma parseAction_in_legal:
  "parseAction r legal \<in> insert ''ACTION_NIL'' (set legal)"
  by (auto simp: parseAction_def Let_def find_Some_iff split: option.splits)

lemma parseAction_VALID: "parseAction r VALID_ACTIONS \<in> set VALID_ACTIONS"
  using parseAction_in_legal [of r VALID_ACTIONS] by (auto simp: VALID_ACTIONS_def)


lemma startAsyncLLMCall_frame:
  shows "pendingLLMAction (fst (startAsyncLLMCall e st p t)) = pendingLLMAction st"
    and "socket_ready (fst (startAsyncLLMCall e st p t)) = socket_ready st"
    and "io (fst (startAsyncLLMCall e st p t)) = io st"
    and "levelCount (fst (startAsyncLLMCall e st p t)) = levelCount st"
    and "onSessionEnd (fst (startAsyncLLMCall e st p t)) = onSessionEnd st"
  by (auto simp: startAsyncLLMCall_def Let_def split: option.splits prod.splits)

lemma complete_call_success:
  assumes "find (\<lambda>c. call_id c = n) (inflight st) = Some call"
    and "response_text reply = Inr llmResponse"
  shows "fst (complete_call st n reply) =
           st\<lparr>inflight := filter (\<lambda>c. call_id c \<noteq> n) (inflight st),
              pendingLLMAction := Some (parseAction llmResponse VALID_ACTIONS),
              llmCallInProgress := False\<rparr>"
  using assms by (simp add: complete_call_def Let_def)

lemma complete_call_pending:
  "pendingLLMAction st \<noteq> None \<Longrightarrow> pendingLLMAction (fst (complete_call st n reply)) \<noteq> None"
  by (auto simp: complete_call_def Let_def split: option.splits sum.splits)

lemma run_immediate_pending:
  "pendingLLMAction (fst (run_immediate e st now t)) = pendingLLMAction st"
  by (simp add: run_immediate_def startAsyncLLMCall_frame Let_def split_beta split: list.splits)

lemma step_keeps_cache:
  assumes "\<not> ends_level e ev" and "pendingLLMAction st \<noteq> None"
  shows "pendingLLMAction (fst (step e st ev)) \<noteq> None"
  using assms
  by (cases ev)
     (auto simp: ends_level_def processMessage_within_level run_immediate_pending
        complete_call_pending socket_down_def triggerSessionEnd_def Let_def disconnect_def)

lemma run_keeps_cache:
  "list_all (\<lambda>ev. \<not> ends_level e ev) evs \<Longrightarrow> pendingLLMAction st \<noteq> None
   \<Longrightarrow> pendingLLMAction (fst (run e st evs)) \<noteq> None"
proof (induction evs arbitrary: st)
  case Nil
  then show ?case by simp
next
  case (Cons ev evs)
  from Cons.prems have "pendingLLMAction (fst (step e st ev)) \<noteq> None"
    by (simp add: step_keeps_cache)
  with Cons show ?case
    by (simp add: split_beta Let_def)
qed

lemma processMessage_END:
  assumes "runs_handleEnd e message"
  shows "\<exists>s msgId. processMessage e st message =
           (fst (handleEnd st s msgId), Console (Log_received msgId ''END'') # snd (handleEnd st s msgId))"
  using assms
  by (auto simp: processMessage_def runs_handleEnd_def Let_def split_beta split: option.splits)

lemma response_text_Inl_iff:
  "(\<exists>err. response_text reply = Inl err) \<longleftrightarrow>
     reply = Fetch_rejected \<or> (\<exists>status errorText. reply = Not_ok status errorText)
     \<or> reply = Body_not_json \<or> reply = Body None"
  by (auto simp: response_text_def split: backend_reply.splits option.splits list.splits)





lemma inflight_found:
  "n \<in> set (map call_id (inflight st))
   \<Longrightarrow> \<exists>call. find (\<lambda>c. call_id c = n) (inflight st) = Some call"
  by (cases "find (\<lambda>c. call_id c = n) (inflight st)") (auto simp: find_None_iff)

lemma complete_call_commits:
  assumes "n \<in> set (map call_id (inflight st))"
    and "response_text reply = Inr llmResponse"
  shows "pendingLLMAction (fst (complete_call st n reply))
           = Some (parseAction llmResponse VALID_ACTIONS)"
  using inflight_found [OF assms(1)] assms(2)
  by (auto simp: complete_call_success)

text \<open>
  C3, as the code has it. An invocation that completes with a response commits its parsed
  action into the cached action whatever has happened to the session since it started:
  \<open>startAsyncLLMCall\<close> checks no generation counter and no session state before the
  assignment, so the result is committed also after \<open>handleEnd\<close> has reset the cache,
  after the socket has closed and after \<open>disconnect\<close>.
\<close>

theorem completed_invocation_always_commits:
  assumes "n \<in> set (map call_id (inflight st))"
    and "response_text reply = Inr llmResponse"
  shows "pendingLLMAction (fst (complete_call st n reply))
           = Some (parseAction llmResponse VALID_ACTIONS)
       \<and> pendingLLMAction (fst (complete_call (fst (handleEnd st s msgId)) n reply))
           = Some (parseAction llmResponse VALID_ACTIONS)
       \<and> pendingLLMAction (fst (complete_call (fst (socket_down st line)) n reply))
           = Some (parseAction llmResponse VALID_ACTIONS)
       \<and> pendingLLMAction (fst (complete_call (disconnect st) n reply))
           = Some (parseAction llmResponse VALID_ACTIONS)"
proof -
  have "n \<in> set (map call_id (inflight (fst (handleEnd st s msgId))))"
    using assms(1) by (simp add: handleEnd_def Let_def)
  moreover have "n \<in> set (map call_id (inflight (fst (socket_down st line))))"
    using assms(1) by (simp add: socket_down_def triggerSessionEnd_def Let_def)
  moreover have "n \<in> set (map call_id (inflight (disconnect st)))"
    using assms(1) by (simp add: disconnect_def)
  ultimately show ?thesis
    using assms by (simp add: complete_call_commits)
qed

theorem completed_invocation_always_commits_witness:
  "0 \<in> set (map call_id (inflight sample_busy))
   \<and> response_text reply_up = Inr ''I choose ACTION_UP''
   \<and> pendingLLMAction sample_busy = Some ''ACTION_LEFT''
   \<and> pendingLLMAction (fst (complete_call (disconnect sample_busy) 0 reply_up)) = Some ''ACTION_UP''"
proof -
  have 1: "0 \<in> set (map call_id (inflight sample_busy))" by code_simp
  have 2: "response_text reply_up = Inr ''I choose ACTION_UP''" by code_simp
  have 3: "pendingLLMAction sample_busy = Some ''ACTION_LEFT''" by code_simp
  have 4: "parseAction ''I choose ACTION_UP'' VALID_ACTIONS = ''ACTION_UP''" by code_simp
  from completed_invocation_always_commits [OF 1 2] 1 2 3 4 show ?thesis by simp
qed

text \<open>
  C3 as stated fails: the invocation started in level 0 completes after the level end
  (and, in a second run, after the socket has closed), and its action is in the cache.
\<close>

theorem stale_result_overwrites_cache:
  "levelCount (fst (run sample_env sample_client
      [Message (act_message ''1''), Immediate 1000 1000, Message (end_message ''2'')])) = 1
   \<and> pendingLLMAction (fst (run sample_env sample_client
      [Message (act_message ''1''), Immediate 1000 1000, Message (end_message ''2'')])) = None
   \<and> pendingLLMAction (fst (run sample_env sample_client
      [Message (act_message ''1''), Immediate 1000 1000, Message (end_message ''2''),
       LLM_done 0 reply_up])) = Some ''ACTION_UP''
   \<and> gameActive (fst (run sample_env sample_client
      [Message (act_message ''1''), Immediate 1000 1000, Socket_close])) = False
   \<and> pendingLLMAction (fst (run sample_env sample_client
      [Message (act_message ''1''), Immediate 1000 1000, Socket_close,
       LLM_done 0 reply_up])) = Some ''ACTION_UP''"
  by code_simp

lemma handleEnd_resets:
  "pendingLLMAction (fst (handleEnd st s msgId)) = None
   \<and> levelCount (fst (handleEnd st s msgId)) = levelCount st + 1"
  by (simp add: handleEnd_def Let_def)

lemma actionToSend_nonempty: "actionToSend st \<noteq> []"
  by (auto simp: actionToSend_cases split: option.splits)

text \<open>
  C4, as the code has it. A completed invocation with a response leaves a cached action;
  the cache then stays set through every event that is not a level end, failed invocations
  included. A level end (\<open>handleEnd\<close>) sets the cache back to \<open>null\<close> and raises the
  level counter by one. Whenever the cache is \<open>null\<close> the action sent is \<open>ACTION_NIL\<close>,
  and the action sent is never empty.
\<close>

theorem cache_kept_until_level_end:
  "(n \<in> set (map call_id (inflight st)) \<and> response_text reply = Inr llmResponse
      \<longrightarrow> pendingLLMAction (fst (complete_call st n reply)) \<noteq> None)
   \<and> (list_all (\<lambda>ev. \<not> ends_level e ev) evs \<and> pendingLLMAction st \<noteq> None
      \<longrightarrow> pendingLLMAction (fst (run e st evs)) \<noteq> None)
   \<and> (runs_handleEnd e message
      \<longrightarrow> pendingLLMAction (fst (processMessage e st message)) = None
        \<and> levelCount (fst (processMessage e st message)) = levelCount st + 1)
   \<and> (pendingLLMAction st = None \<longrightarrow> actionToSend st = ''ACTION_NIL'')
   \<and> actionToSend st \<noteq> []"
proof (intro conjI impI)
  assume "n \<in> set (map call_id (inflight st)) \<and> response_text reply = Inr llmResponse"
  then show "pendingLLMAction (fst (complete_call st n reply)) \<noteq> None"
    by (simp add: complete_call_commits)
next
  assume "list_all (\<lambda>ev. \<not> ends_level e ev) evs \<and> pendingLLMAction st \<noteq> None"
  then show "pendingLLMAction (fst (run e st evs)) \<noteq> None"
    by (simp add: run_keeps_cache)
next
  assume "runs_handleEnd e message"
  then obtain s msgId where "fst (processMessage e st message) = fst (handleEnd st s msgId)"
    using processMessage_END [of e message st] by auto
  then show "pendingLLMAction (fst (processMessage e st message)) = None"
    and "levelCount (fst (processMessage e st message)) = levelCount st + 1"
    by (simp_all add: handleEnd_resets)
next
  assume "pendingLLMAction st = None"
  then show "actionToSend st = ''ACTION_NIL''" by (simp add: actionToSend_cases)
next
  show "actionToSend st \<noteq> []" by (rule actionToSend_nonempty)
qed

theorem cache_kept_until_level_end_witness:
  "0 \<in> set (map call_id (inflight sample_busy))
   \<and> response_text reply_up = Inr ''I choose ACTION_UP''
   \<and> pendingLLMAction (fst (complete_call sample_busy 0 reply_up)) \<noteq> None
   \<and> list_all (\<lambda>ev. \<not> ends_level sample_env ev) sample_ticks
   \<and> pendingLLMAction sample_busy \<noteq> None
   \<and> pendingLLMAction (fst (run sample_env sample_busy sample_ticks)) \<noteq> None
   \<and> runs_handleEnd sample_env (end_message ''2'')
   \<and> pendingLLMAction (fst (processMessage sample_env sample_busy (end_message ''2''))) = None
   \<and> pendingLLMAction sample_client = None
   \<and> actionToSend sample_client = ''ACTION_NIL''"
proof -
  have 1: "0 \<in> set (map call_id (inflight sample_busy))" by code_simp
  have 2: "response_text reply_up = Inr ''I choose ACTION_UP''" by code_simp
  have 3: "list_all (\<lambda>ev. \<not> ends_level sample_env ev) sample_ticks" by code_simp
  have 4: "pendingLLMAction sample_busy \<noteq> None" by code_simp
  have 5: "runs_handleEnd sample_env (end_message ''2'')" by code_simp
  have 6: "pendingLLMAction sample_client = None" by code_simp
  note a = cache_kept_until_level_end
             [of 0 sample_busy reply_up "''I choose ACTION_UP''" sample_env sample_ticks
                 "end_message ''2''"]
  note b = cache_kept_until_level_end
             [of 0 sample_client reply_up "''I choose ACTION_UP''" sample_env sample_ticks
                 "end_message ''2''"]
  from a b 1 2 3 4 5 6 show ?thesis by simp
qed

text \<open>
  C4 as stated fails: after the first invocation has completed, a level end leaves the
  cached action absent.
\<close>

theorem level_end_clears_cache:
  "pendingLLMAction (fst (run sample_env sample_client
      [Message (act_message ''1''), Immediate 1000 1000, LLM_done 0 reply_up])) = Some ''ACTION_UP''
   \<and> pendingLLMAction (fst (run sample_env sample_client
      [Message (act_message ''1''), Immediate 1000 1000, LLM_done 0 reply_up,
       Message (end_message ''2'')])) = None"
  by code_simp

section \<open>Admission control\<close>

lemma spaced_snoc: "spaced (ts @ [t]) \<longleftrightarrow> spaced ts \<and> (ts \<noteq> [] \<longrightarrow> t - last ts \<ge> 400)"
  by (induction ts rule: spaced.induct) auto

lemma admission_inv_message:
  assumes "admission_inv k st" "\<not> runs_handleEnd e message"
  shows "admission_inv k (fst (processMessage e st message))"
  using assms by (simp add: admission_inv_def processMessage_within_level)

lemma admission_inv_start:
  assumes "admission_inv k st" "\<not> llmCallInProgress st" "now - lastLLMCallTime st \<ge> 400" "now \<le> t"
  shows "admission_inv k (fst (startAsyncLLMCall e st jsonPayload t))"
  using assms
  by (auto simp: admission_inv_def startAsyncLLMCall_def Let_def spaced_snoc split_beta
      split: option.splits)

lemma admission_inv_immediate:
  assumes "admission_inv k st" "now \<le> t"
  shows "admission_inv k (fst (run_immediate e st now t))"
proof (cases "immediates st")
  case Nil
  with assms show ?thesis by (simp add: run_immediate_def)
next
  case (Cons job rest)
  obtain jsonPayload sent where job: "job = (jsonPayload, sent)" by (cases job)
  let ?st0 = "st\<lparr>immediates := rest\<rparr>"
  have inv0: "admission_inv k ?st0" using assms(1) by (simp add: admission_inv_def)
  show ?thesis
  proof (cases "\<not> llmCallInProgress st \<and> now - lastLLMCallTime st \<ge> 400")
    case True
    then have "admission_inv k (fst (startAsyncLLMCall e ?st0 jsonPayload t))"
      using inv0 assms(2) by (intro admission_inv_start) simp_all
    with True Cons job show ?thesis
      by (simp add: run_immediate_def Let_def split_beta)
  next
    case False
    with Cons job inv0 show ?thesis
      by (auto simp: run_immediate_def Let_def)
  qed
qed

lemma admission_inv_complete:
  assumes "admission_inv k st"
  shows "admission_inv k (fst (complete_call st n reply))"
proof (cases "find (\<lambda>c. call_id c = n) (inflight st)")
  case None
  with assms show ?thesis by (simp add: complete_call_def)
next
  case (Some call)
  then have "call \<in> set (inflight st)" "call_id call = n"
    by (auto simp: find_Some_iff)
  moreover from assms have "length (inflight st) \<le> 1" by (simp add: admission_inv_def)
  ultimately have "inflight st = [call]"
    by (cases "inflight st") auto
  with Some assms \<open>call_id call = n\<close> show ?thesis
    by (auto simp: complete_call_def admission_inv_def Let_def split: sum.splits)
qed

lemma admission_inv_step:
  assumes "admission_inv k st" "\<not> ends_level e ev" "clock_forward ev"
  shows "admission_inv k (fst (step e st ev))"
proof (cases ev)
  case (Message message)
  with assms show ?thesis by (simp add: admission_inv_message ends_level_def)
next
  case (Immediate now t)
  with assms show ?thesis by (simp add: admission_inv_immediate clock_forward_def)
next
  case (LLM_done n reply)
  with assms show ?thesis by (simp add: admission_inv_complete)
next
  case Socket_error
  with assms show ?thesis
    by (simp add: socket_down_def triggerSessionEnd_def Let_def admission_inv_def)
next
  case Socket_close
  with assms show ?thesis
    by (simp add: socket_down_def triggerSessionEnd_def Let_def admission_inv_def)
next
  case Disconnect
  with assms show ?thesis by (simp add: disconnect_def admission_inv_def)
qed

lemma admission_inv_run:
  "admission_inv k st \<Longrightarrow> list_all (\<lambda>ev. \<not> ends_level e ev \<and> clock_forward ev) evs
   \<Longrightarrow> admission_inv k (fst (run e st evs))"
proof (induction evs arbitrary: st)
  case Nil
  then show ?case by simp
next
  case (Cons ev evs)
  from Cons.prems have "admission_inv k (fst (step e st ev))"
    by (simp add: admission_inv_step)
  with Cons show ?case by (simp add: split_beta Let_def)
qed

lemma list_all_take: "list_all P xs \<Longrightarrow> list_all P (take k xs)"
  by (auto simp: list_all_iff dest: in_set_takeD)

text \<open>
  C2, as the code has it. From a point of the session at which no invocation is in flight,
  the connect in particular, and as long as no message reaches \<open>handleEnd\<close>, at most
  one invocation is in flight at any point, and the invocation starts made since are at
  least 400 ms apart by the clock readings stored in \<open>lastLLMCallTime\<close>, however fast
  the ticks arrive. (\<open>j\<close> cuts the run at any point.) A level end clears the flag and
  the time stamp even while an invocation is in flight, so across it neither bound holds.
\<close>

theorem admission_control_until_level_end:
  assumes "no_invocation_in_flight st"
    and "list_all (\<lambda>ev. \<not> ends_level e ev \<and> clock_forward ev) evs"
  shows "length (inflight (fst (run e st (take j evs)))) \<le> 1
       \<and> spaced (drop (length (started st)) (started (fst (run e st (take j evs)))))"
proof -
  from assms(1) have "admission_inv (length (started st)) st"
    by (simp add: no_invocation_in_flight_def admission_inv_def)
  moreover from assms(2)
  have "list_all (\<lambda>ev. \<not> ends_level e ev \<and> clock_forward ev) (take j evs)"
    by (rule list_all_take)
  ultimately have "admission_inv (length (started st)) (fst (run e st (take j evs)))"
    by (rule admission_inv_run)
  then show ?thesis by (simp add: admission_inv_def)
qed

theorem admission_control_until_level_end_witness:
  "no_invocation_in_flight sample_client
   \<and> list_all (\<lambda>ev. \<not> ends_level sample_env ev \<and> clock_forward ev) sample_ticks
   \<and> length (inflight (fst (run sample_env sample_client (take 11 sample_ticks)))) \<le> 1
   \<and> spaced (started (fst (run sample_env sample_client (take 11 sample_ticks))))
   \<and> started (fst (run sample_env sample_client (take 11 sample_ticks))) = [1001, 1405]"
proof -
  have 1: "no_invocation_in_flight sample_client" by code_simp
  have 2: "list_all (\<lambda>ev. \<not> ends_level sample_env ev \<and> clock_forward ev) sample_ticks"
    by code_simp
  have 3: "started (fst (run sample_env sample_client (take 11 sample_ticks))) = [1001, 1405]"
    by code_simp
  have 4: "started sample_client = []" by code_simp
  from admission_control_until_level_end [OF 1 2, of 11] 1 2 3 4 show ?thesis by simp
qed

text \<open>
  C2 as stated fails: with a level end between two ticks that are 100 ms apart, the second
  tick starts invocation 1 while invocation 0 is still in flight.
\<close>

theorem two_invocations_across_level_end:
  "map call_id (inflight (fst (run sample_env sample_client sample_two_levels))) = [0, 1]
   \<and> started (fst (run sample_env sample_client sample_two_levels)) = [1000, 1100]
   \<and> \<not> spaced (started (fst (run sample_env sample_client sample_two_levels)))"
  by code_simp

section \<open>Framing: split and rejoin\<close>

lemma split_on_not_Nil: "split_on c s \<noteq> []"
  by (induction s) (auto split: list.splits)

lemma split_on_no_separator: "c \<notin> set s \<Longrightarrow> split_on c s = [s]"
  by (induction s) auto

lemma split_on_first_separator:
  "c \<notin> set xs \<Longrightarrow> split_on c (xs @ c # ys) = xs # split_on c ys"
  by (induction xs) auto

lemma join_split_on: "join [c] (split_on c s) = s"
proof (induction s)
  case Nil
  then show ?case by simp
next
  case (Cons x xs)
  show ?case
  proof (cases "x = c")
    case True
    with Cons show ?thesis
      by (cases "split_on c xs") (simp_all add: split_on_not_Nil)
  next
    case False
    obtain w ws where sp: "split_on c xs = w # ws"
      using split_on_not_Nil [of c xs] by (cases "split_on c xs") auto
    with Cons have "join [c] (w # ws) = xs" by simp
    with False sp show ?thesis
      by (cases ws) auto
  qed
qed

lemma frame_parts_rejoin:
  "CHR ''#'' \<notin> set msgId \<Longrightarrow> frame_parts (msgId @ ''#'' @ payload) = (msgId, payload)"
  by (simp add: frame_parts_def split_on_first_separator join_split_on)

lemma dropWhile_stops: "\<not> P y \<Longrightarrow> dropWhile P (xs @ y # ys) = dropWhile P xs @ y # ys"
  by (induction xs) auto

lemma hash_no_space: "\<not> js_space (CHR ''#'')"
  by (simp add: js_space_def)

lemma js_trim_frame:
  "js_trim (msgId @ ''#'' @ payload) = dropWhile js_space msgId @ ''#'' @ trim_end payload"
proof -
  have "dropWhile js_space (msgId @ CHR ''#'' # payload)
          = dropWhile js_space msgId @ CHR ''#'' # payload"
    by (rule dropWhile_stops) (rule hash_no_space)
  moreover have "dropWhile js_space (rev payload @ CHR ''#'' # rev (dropWhile js_space msgId))
          = dropWhile js_space (rev payload) @ CHR ''#'' # rev (dropWhile js_space msgId)"
    by (rule dropWhile_stops) (rule hash_no_space)
  ultimately show ?thesis
    by (simp add: js_trim_def trim_end_def)
qed

lemma trim_end_id: "payload = [] \<or> \<not> js_space (last payload) \<Longrightarrow> trim_end payload = payload"
  by (cases payload rule: rev_cases) (auto simp: trim_end_def)

lemma split_on_lines:
  assumes "list_all plain_frame frames" and "CHR 0x0A \<notin> set rest"
  shows "split_on (CHR 0x0A) (concat (map (\<lambda>f. frame_text f @ [CHR 0x0A]) frames) @ rest)
           = map frame_text frames @ [rest]"
  using assms
proof (induction frames)
  case Nil
  then show ?case by (simp add: split_on_no_separator)
next
  case (Cons f frames)
  let ?more = "concat (map (\<lambda>f. frame_text f @ [CHR 0x0A]) frames) @ rest"
  from Cons.prems have "CHR 0x0A \<notin> set (frame_text f)"
    by (simp add: plain_frame_def frame_text_def)
  then have "split_on (CHR 0x0A) (frame_text f @ CHR 0x0A # ?more)
               = frame_text f # split_on (CHR 0x0A) ?more"
    by (rule split_on_first_separator)
  moreover from Cons have "split_on (CHR 0x0A) ?more = map frame_text frames @ [rest]"
    by simp
  ultimately show ?case by simp
qed

lemma frame_dispatched:
  assumes "plain_frame f"
  shows "js_trim (frame_text f) \<noteq> []"
    and "frame_parts (js_trim (frame_text f)) = trimmed_frame f"
proof -
  show "js_trim (frame_text f) \<noteq> []"
    using js_trim_frame [of "fst f" "snd f"] by (simp add: frame_text_def)
  have "CHR ''#'' \<notin> set (dropWhile js_space (fst f))"
    using assms by (meson plain_frame_def set_dropWhileD)
  then have "frame_parts (dropWhile js_space (fst f) @ ''#'' @ trim_end (snd f))
               = (dropWhile js_space (fst f), trim_end (snd f))"
    by (rule frame_parts_rejoin)
  then show "frame_parts (js_trim (frame_text f)) = trimmed_frame f"
    using js_trim_frame [of "fst f" "snd f"] by (simp add: trimmed_frame_def frame_text_def)
qed

lemma trimmed_frame_id: "no_outer_space f \<Longrightarrow> trimmed_frame f = f"
proof -
  assume a: "no_outer_space f"
  then have "dropWhile js_space (fst f) = fst f"
    by (cases "fst f") (auto simp: no_outer_space_def)
  moreover from a have "trim_end (snd f) = snd f"
    by (simp add: no_outer_space_def trim_end_id)
  ultimately show ?thesis by (simp add: trimmed_frame_def)
qed

text \<open>
  C6, as the code has it, for ASCII text. Let the buffer followed by the text of a chunk
  be any number of plain frames \<open><id>#<payload>\<close>, each followed by its newline, and
  then a rest without a newline. Then \<open>handleData\<close> dispatches exactly these frames, in
  order, keeps the rest in the buffer, and only the first \<open>#\<close> of a frame separates:
  each payload is rejoined with every embedded \<open>#\<close>. Since the line is trimmed first,
  white space at the end of a payload (and at the start of an id) is stripped; frames
  without such white space are reconstructed exactly.
\<close>

theorem frames_rejoined_after_trim:
  assumes "buf @ data = concat (map (\<lambda>f. frame_text f @ [CHR 0x0A]) frames) @ rest"
    and "list_all plain_frame frames"
    and "CHR 0x0A \<notin> set rest"
    and "ascii (buf @ data)"
  shows "decoded buf data = map trimmed_frame frames
       \<and> snd (frames_of buf data) = rest
       \<and> (list_all no_outer_space frames \<longrightarrow> decoded buf data = frames)"
proof -
  have sp: "split_on (CHR 0x0A) (buf @ data) = map frame_text frames @ [rest]"
    using assms(1) split_on_lines [OF assms(2,3)] by simp
  have "\<forall>f\<in>set frames. js_trim (frame_text f) \<noteq> []"
    using assms(2) by (simp add: list_all_iff frame_dispatched(1))
  then have keep: "filter (\<lambda>message. js_trim message \<noteq> []) (map frame_text frames)
                     = map frame_text frames"
    by (simp add: filter_id_conv)
  from sp keep have fr: "frames_of buf data = (map js_trim (map frame_text frames), rest)"
    by (simp add: frames_of_def)
  have "\<forall>f\<in>set frames. frame_parts (js_trim (frame_text f)) = trimmed_frame f"
    using assms(2) by (simp add: list_all_iff frame_dispatched(2))
  then have "map frame_parts (map js_trim (map frame_text frames)) = map trimmed_frame frames"
    by simp
  with fr have d: "decoded buf data = map trimmed_frame frames"
    by (simp add: decoded_def)
  moreover have "map trimmed_frame frames = frames" if "list_all no_outer_space frames"
    using that by (induction frames) (simp_all add: trimmed_frame_id)
  ultimately show ?thesis using fr by simp
qed

theorem frames_rejoined_after_trim_witness:
  "''3#a#'' @ (''b#c'' @ [CHR 0x0A] @ ''4#START'' @ [CHR 0x0A] @ ''5#{'')
     = concat (map (\<lambda>f. frame_text f @ [CHR 0x0A]) [(''3'', ''a#b#c''), (''4'', ''START'')]) @ ''5#{''
   \<and> list_all plain_frame [(''3'', ''a#b#c''), (''4'', ''START'')]
   \<and> CHR 0x0A \<notin> set ''5#{''
   \<and> ascii (''3#a#'' @ (''b#c'' @ [CHR 0x0A] @ ''4#START'' @ [CHR 0x0A] @ ''5#{''))
   \<and> list_all no_outer_space [(''3'', ''a#b#c''), (''4'', ''START'')]
   \<and> decoded ''3#a#'' (''b#c'' @ [CHR 0x0A] @ ''4#START'' @ [CHR 0x0A] @ ''5#{'')
       = [(''3'', ''a#b#c''), (''4'', ''START'')]
   \<and> snd (frames_of ''3#a#'' (''b#c'' @ [CHR 0x0A] @ ''4#START'' @ [CHR 0x0A] @ ''5#{'')) = ''5#{''"
proof -
  let ?buf = "''3#a#''"
  let ?data = "''b#c'' @ [CHR 0x0A] @ ''4#START'' @ [CHR 0x0A] @ ''5#{''"
  let ?frames = "[(''3'', ''a#b#c''), (''4'', ''START'')]"
  have 1: "?buf @ ?data = concat (map (\<lambda>f. frame_text f @ [CHR 0x0A]) ?frames) @ ''5#{''"
    by (simp add: frame_text_def)
  have 2: "list_all plain_frame ?frames" by code_simp
  have 3: "CHR 0x0A \<notin> set ''5#{''" by simp
  have 4: "ascii (?buf @ ?data)" by code_simp
  have 5: "list_all no_outer_space ?frames" by code_simp
  from frames_rejoined_after_trim [OF 1 2 3 4] 5
  have "decoded ?buf ?data = ?frames" and "snd (frames_of ?buf ?data) = ''5#{''"
    by blast+
  with 1 2 3 4 5 show ?thesis by blast
qed

text \<open>
  C6 as stated fails: the frame \<open>7#{}\<close> with a blank after the closing brace, ASCII
  text and a valid JSON payload, has the payload of three characters, and the channel hands
  on the payload of two.
\<close>

theorem trailing_blank_not_reconstructed:
  "decoded [] (''7#'' @ ''{} '' @ [CHR 0x0A]) = [(''7'', ''{}'')] \<and> ''{}'' \<noteq> ''{} ''"
  by code_simp

section \<open>The composer: placeholders and layout\<close>

lemma match_placeholder_key:
  assumes "key \<noteq> []" and "\<forall>c\<in>set key. js_word c"
  shows "match_placeholder (''{{'' @ key @ ''}}'' @ rest) = Some (key, rest)"
proof -
  have nb: "\<not> js_word (CHR ''}'')" by (simp add: js_word_def)
  have "takeWhile js_word (key @ CHR ''}'' # CHR ''}'' # rest) = key"
    using assms(2) nb by (simp add: takeWhile_tail)
  moreover have "dropWhile js_word (key @ CHR ''}'' # CHR ''}'' # rest) = CHR ''}'' # CHR ''}'' # rest"
    using assms(2) nb by (simp add: dropWhile_append3)
  ultimately show ?thesis
    using assms(1) by (simp add: match_placeholder_def)
qed

text \<open>A placeholder at the head of the text is replaced by what the callback returns.\<close>

lemma replace_placeholder_head:
  assumes "key \<noteq> []" and "\<forall>c\<in>set key. js_word c"
  shows "replace_placeholders f (''{{'' @ key @ ''}}'' @ rest)
           = f (''{{'' @ key @ ''}}'') key @ replace_placeholders f rest"
  using match_placeholder_key [OF assms, of rest] by simp

text \<open>A character that starts no placeholder is copied.\<close>

lemma replace_plain_head:
  "match_placeholder (c # cs) = None
   \<Longrightarrow> replace_placeholders f (c # cs) = c # replace_placeholders f cs"
  by simp

text \<open>
  The callback of \<open>resolveTemplate\<close> leaves a placeholder as it is exactly when its name
  is neither one of the six names of \<open>vars\<close> nor a name inherited from
  \<open>Object.prototype\<close>.
\<close>

lemma vars_get_None_iff:
  "vars_get s g key = None \<longleftrightarrow>
     key \<notin> set [''gameName'', ''gameScore'', ''avatarHealthPoints'', ''gameTick'',
                 ''availableActions'', ''avatarPosition'']
     \<and> object_prototype key = None"
  by (simp add: vars_get_def vars_own_def split: option.splits)

text \<open>The user message: game context, level context and tick state, in this order.\<close>

lemma userMessage_layout:
  "snd (buildPrompt s (Some pc)) =
     join [CHR 0x0A, CHR 0x0A]
       (filter_Boolean [resolveTemplate (gameContent pc) s (gameName pc),
                        resolveTemplate (levelContent pc) s (gameName pc)]
        @ [tickState s])"
proof -
  have "tickState s \<noteq> []" by (simp add: tickState_def)
  then show ?thesis
    by (simp add: buildPrompt_def Let_def filter_Boolean_def)
qed

text \<open>
  C9 fails on the code for a placeholder whose name is inherited from \<open>Object.prototype\<close>.
  In one layer, \<open>{{gameScore}}\<close> becomes the score, the unknown \<open>{{foo}}\<close> stays as it
  is, and \<open>{{constructor}}\<close>, as unknown to the composer as \<open>{{foo}}\<close>, is replaced by the
  text of a built-in function.
\<close>

theorem inherited_name_is_substituted:
  "resolveTemplate (Some ''Score is {{gameScore}}, {{foo}}, {{constructor}}'')
     sample_sso (Some ''aliens'')
   = Some ''Score is 42, {{foo}}, function Object() { [native code] }''"
  by code_simp

end
